theory Spec2Isabelle
  imports Main
begin

section \<open>Collector discovery: the membership watch of the target allocator\<close>

text \<open>
  The Go package \<open>collector\<close> lists the collector pods once, hands the resulting map to a
  callback, and then keeps the map up to date from a sequence of bounded watch sessions.
  The API server, the clock, the other goroutine that may call \<open>Close\<close> and the Go
  runtime's choice among ready \<open>select\<close> cases are the environment: their answers are
  inputs of the model. What the code does to the world (the calls it makes to the API
  server and to the callback \<open>fn\<close>, in order, the gauge it sets, the exit of the process)
  is the output.

  Left out: the log lines, which no caller observes, and the namespace and label selector
  of the two API calls, which only decide what the server answers; the answers themselves
  are inputs. The callback is taken to return; what it does with the map is its own.
\<close>

subsection \<open>Time\<close>

text \<open>
  Instants and durations are counted in nanoseconds, as Go's \<open>time.Duration\<close> does. The
  constants are those of Go's \<open>time\<close> package.
\<close>

type_synonym time = int

definition Nanosecond :: time where "Nanosecond = 1"
definition Microsecond :: time where "Microsecond = 1000 * Nanosecond"
definition Millisecond :: time where "Millisecond = 1000 * Microsecond"
definition Second :: time where "Second = 1000 * Millisecond"
definition Minute :: time where "Minute = 60 * Second"

definition watcherTimeout :: time where
  "watcherTimeout = 15 * Minute"

subsection \<open>Data\<close>

text \<open>The two fields of \<open>v1.Pod\<close> that the package reads.\<close>

record Pod =
  Name :: string
  DeletionTimestamp :: "time option"

text \<open>
  Modelled from the spec: \<open>allocation.Collector\<close> and \<open>allocation.NewCollector\<close> are
  declared in another package, \<open>cmd/otel-allocator/allocation\<close>, whose source is missing
  here. The specification gives a collector one attribute, its name, and \<open>NewCollector\<close>
  builds the collector of that name.
\<close>

datatype Collector = Collector (collector_name: string)

definition NewCollector :: "string \<Rightarrow> Collector" where
  "NewCollector n = Collector n"

text \<open>\<open>map[string]*allocation.Collector\<close>: unique keys, no order.\<close>

type_synonym membership = "string \<rightharpoonup> Collector"

text \<open>
  \<open>watch.Event\<close> of the Kubernetes client: the five event types of the \<open>watch\<close> package,
  and an object that is a pod or something else (an \<open>Error\<close> event carries a status
  object, for one).
\<close>

datatype EventType = Added | Modified | Deleted | Bookmark | Error

datatype object = PodObject Pod | OtherObject

record Event =
  Type :: EventType
  Object :: object

text \<open>
  A channel as a receiver finds it: nothing to receive (the receive would block), closed
  and drained (the receive yields \<open>ok = false\<close>), or a value at its head.
\<close>

datatype 'a chan = Empty | Closed | Head 'a

text \<open>
  The client. Of its three fields only the channel \<open>close\<close> matters here; nothing is ever
  sent on it.
\<close>

record Client =
  close :: "unit chan"

datatype panic = CloseOfClosedChannel

text \<open>\<open>Close\<close> closes the channel; Go panics when a closed channel is closed again.\<close>

definition Close :: "Client \<Rightarrow> panic + Client" where
  "Close k = (case close k of
                Closed \<Rightarrow> Inl CloseOfClosedChannel
              | _ \<Rightarrow> Inr (k\<lparr>close := Closed\<rparr>))"

subsection \<open>The environment of one wake-up\<close>

text \<open>
  \<open>runWatch\<close> blocks in a \<open>select\<close> over three channels. A \<open>wake\<close> is what the goroutine
  finds when the runtime looks at that \<open>select\<close>: the client as the other goroutines have
  left it, whether the caller's context has been cancelled, the clock, the state of the
  event channel, and the number the runtime draws to choose among the ready cases.
\<close>

record wake =
  k :: Client
  parent_done :: bool
  now :: time
  events :: "Event chan"
  pick :: nat

datatype select_case = CaseClose | CaseCtxDone | CaseEvent

text \<open>
  The session context is \<open>context.WithTimeout(ctx, watcherTimeout)\<close>: its \<open>Done\<close> channel
  is closed once the parent is done or the deadline \<open>d\<close> has been reached.
\<close>

definition ctx_done :: "time \<Rightarrow> wake \<Rightarrow> bool" where
  "ctx_done d w \<longleftrightarrow> parent_done w \<or> d \<le> now w"

text \<open>The cases of the \<open>select\<close> that can proceed, in the order of the source.\<close>

definition ready :: "time \<Rightarrow> wake \<Rightarrow> select_case list" where
  "ready d w =
     (if close (k w) \<noteq> Empty then [CaseClose] else []) @
     (if ctx_done d w then [CaseCtxDone] else []) @
     (if events w \<noteq> Empty then [CaseEvent] else [])"

text \<open>
  Go's \<open>select\<close>: when no case can proceed the goroutine stays blocked; otherwise one of
  the cases that can proceed is chosen by the runtime (a uniform pseudo-random choice,
  here the number \<open>pick\<close>).
\<close>

definition select :: "time \<Rightarrow> wake \<Rightarrow> select_case option" where
  "select d w =
     (case ready d w of
        [] \<Rightarrow> None
      | r # rs \<Rightarrow> Some ((r # rs) ! (pick w mod length (r # rs))))"

subsection \<open>State and effects\<close>

text \<open>
  The calls the package makes to the outside, in the order it makes them: the bootstrap
  listing, the opening of a watch subscription (under a context with the given deadline),
  and the callback \<open>fn\<close> with the map as it is at that moment.
\<close>

datatype call = is_List: List_Pods | is_Watch: Watch_Pods time | is_Fn: Fn membership

record state =
  collectorMap :: membership
  collectorsDiscovered :: nat
  calls :: "call list"

type_synonym error = string

text \<open>
  How \<open>Watch\<close> stands when the described environment ends: it has returned (an error or
  \<open>nil\<close>), the process has exited with a status, the goroutine is blocked in the
  \<open>select\<close> of \<open>runWatch\<close>, or it is at the head of its loop, about to open the next
  session.
\<close>

datatype outcome = Returned "error option" | Exited int | Blocked | Pending

subsection \<open>The event processor\<close>

text \<open>
  \<open>runWatch\<close>: every pass sets the gauge to the size of the map and waits. The result is
  the returned string, or \<open>None\<close> when the goroutine is still blocked in the \<open>select\<close>
  after the last described wake. A wake at which no case can proceed leaves the
  goroutine blocked until the next one.
\<close>

fun runWatch :: "time \<Rightarrow> wake list \<Rightarrow> state \<Rightarrow> string option \<times> state" where
  "runWatch d [] s = (None, s\<lparr>collectorsDiscovered := card (dom (collectorMap s))\<rparr>)"
| "runWatch d (w # ws) s =
     (let s0 = s\<lparr>collectorsDiscovered := card (dom (collectorMap s))\<rparr> in
      case select d w of
        None \<Rightarrow> runWatch d ws s0
      | Some CaseClose \<Rightarrow> (Some ''kubernetes client closed'', s0)
      | Some CaseCtxDone \<Rightarrow> (Some '''', s0)
      | Some CaseEvent \<Rightarrow>
          (case events w of
             Empty \<Rightarrow> runWatch d ws s0
           | Closed \<Rightarrow> (Some '''', s0)
           | Head event \<Rightarrow>
               (case Object event of
                  OtherObject \<Rightarrow> (Some '''', s0)
                | PodObject pod \<Rightarrow>
                    (let m = (case Type event of
                                Added \<Rightarrow> (collectorMap s0)(Name pod \<mapsto> NewCollector (Name pod))
                              | Deleted \<Rightarrow> (collectorMap s0)(Name pod := None)
                              | _ \<Rightarrow> collectorMap s0);
                         s1 = s0\<lparr>collectorMap := m, calls := calls s0 @ [Fn m]\<rparr>
                     in runWatch d ws s1))))"

subsection \<open>One watch session\<close>

text \<open>
  The caller's context, as far as \<open>context.WithTimeout\<close> reads it: its deadline, if it
  has one. \<open>context.Background()\<close> has none. Whether the caller has cancelled it is part
  of each wake.
\<close>

record Context =
  Deadline :: "time option"

definition Background :: Context where
  "Background = \<lparr>Deadline = None\<rparr>"

text \<open>
  The deadline of \<open>context.WithTimeout(parent, timeout)\<close> derived at the instant \<open>t\<close>:
  \<open>t + timeout\<close>, unless the parent's own deadline is earlier, which then stays in force.
\<close>

definition WithTimeout :: "Context \<Rightarrow> time \<Rightarrow> time \<Rightarrow> time" where
  "WithTimeout parent t timeout =
     (case Deadline parent of
        None \<Rightarrow> t + timeout
      | Some cur \<Rightarrow> if cur < t + timeout then cur else t + timeout)"

text \<open>
  What the environment supplies for one call of \<open>restartWatch\<close>: the clock when the
  session context is derived, and the answer of the API server to the subscription, an
  error or the wakes of the session.
\<close>

record session =
  start :: time
  subscription :: "error + wake list"

text \<open>
  \<open>restartWatch\<close>: \<open>None\<close> when \<open>runWatch\<close> has not returned, otherwise the boolean the
  source returns.
\<close>

definition restartWatch :: "Context \<Rightarrow> session \<Rightarrow> state \<Rightarrow> bool option \<times> state" where
  "restartWatch ctx e s =
     (let d = WithTimeout ctx (start e) watcherTimeout;
          s1 = s\<lparr>calls := calls s @ [Watch_Pods d]\<rparr>
      in case subscription e of
           Inl err \<Rightarrow> (Some False, s1)
         | Inr c \<Rightarrow>
             (case runWatch d c s1 of
                (None, s2) \<Rightarrow> (None, s2)
              | (Some msg, s2) \<Rightarrow> if msg \<noteq> '''' then (Some False, s2) else (Some True, s2)))"

subsection \<open>The discovery client\<close>

text \<open>The loop over \<open>pods.Items\<close> of \<open>Watch\<close>.\<close>

fun bootstrap :: "Pod list \<Rightarrow> membership \<Rightarrow> membership" where
  "bootstrap [] m = m"
| "bootstrap (pod # pods) m =
     bootstrap pods
       (if DeletionTimestamp pod = None then m(Name pod \<mapsto> NewCollector (Name pod)) else m)"

text \<open>The closing loop of \<open>Watch\<close>: sessions until one reports \<open>false\<close>.\<close>

fun watchLoop :: "Context \<Rightarrow> session list \<Rightarrow> state \<Rightarrow> outcome \<times> state" where
  "watchLoop ctx [] s = (Pending, s)"
| "watchLoop ctx (e # es) s =
     (case restartWatch ctx e s of
        (None, s') \<Rightarrow> (Blocked, s')
      | (Some False, s') \<Rightarrow> (Returned None, s')
      | (Some True, s') \<Rightarrow> watchLoop ctx es s')"

text \<open>The state of a fresh process: an empty map, the gauge at zero, no call made.\<close>

definition init :: state where
  "init = \<lparr>collectorMap = Map.empty, collectorsDiscovered = 0, calls = []\<rparr>"

text \<open>
  \<open>Watch\<close>, given the caller's context, the answer of the API server to the listing
  and the sessions that follow. A failed listing ends in \<open>os.Exit(1)\<close>.
\<close>

definition Watch ::
  "Context \<Rightarrow> error + Pod list \<Rightarrow> session list \<Rightarrow> outcome \<times> state" where
  "Watch ctx listing sessions =
     (let s = init\<lparr>calls := [List_Pods]\<rparr> in
      case listing of
        Inl err \<Rightarrow> (Exited 1, s)
      | Inr items \<Rightarrow>
          (let m = bootstrap items (collectorMap s);
               s1 = s\<lparr>collectorMap := m, calls := calls s @ [Fn m]\<rparr>
           in watchLoop ctx sessions s1))"

section \<open>Properties\<close>

subsection \<open>The wait\<close>

lemma select_in_ready:
  assumes "select d w = Some c"
  shows "c \<in> set (ready d w)"
proof (cases "ready d w")
  case Nil
  with assms show ?thesis by (simp add: select_def)
next
  case (Cons r rs)
  have "(r # rs) ! (pick w mod length (r # rs)) \<in> set (r # rs)"
    by (rule nth_mem) simp
  with assms Cons show ?thesis by (simp add: select_def)
qed

lemma select_only_close:
  "close (k w) = Closed \<Longrightarrow> \<not> ctx_done d w \<Longrightarrow> events w = Empty \<Longrightarrow>
   select d w = Some CaseClose"
  by (simp add: select_def ready_def)

lemma select_only_ctx:
  "close (k w) = Empty \<Longrightarrow> ctx_done d w \<Longrightarrow> events w = Empty \<Longrightarrow>
   select d w = Some CaseCtxDone"
  by (simp add: select_def ready_def)

lemma select_hangup:
  "close (k w) = Empty \<Longrightarrow> events w = Closed \<Longrightarrow>
   select d w = Some CaseCtxDone \<or> select d w = Some CaseEvent"
  by (cases "pick w mod 2 = 0") (auto simp: select_def ready_def nth_Cons')

subsection \<open>The event processor\<close>

lemma runWatch_gauge:
  "collectorsDiscovered (snd (runWatch d ws s)) =
   card (dom (collectorMap (snd (runWatch d ws s))))"
  by (induction d ws s rule: runWatch.induct)
     (auto simp: Let_def split: option.splits select_case.splits chan.splits object.splits)

lemma runWatch_waiting_state:
  assumes "runWatch d pre s = (r, s2)"
  shows "s2\<lparr>collectorsDiscovered := card (dom (collectorMap s2))\<rparr> = s2"
proof -
  from assms have "collectorsDiscovered s2 = card (dom (collectorMap s2))"
    using runWatch_gauge [of d pre s] by simp
  then show ?thesis by simp
qed

lemma runWatch_append:
  "fst (runWatch d pre s) = None \<Longrightarrow>
   runWatch d (pre @ ws) s = runWatch d ws (snd (runWatch d pre s))"
proof (induction d pre s rule: runWatch.induct)
  case (1 d s)
  show ?case by (cases ws) (simp_all add: Let_def)
next
  case (2 d w ws' s)
  then show ?case
    by (auto simp: Let_def split: option.splits select_case.splits chan.splits object.splits)
qed

lemma runWatch_step:
  "(\<exists>msg. runWatch d (w # ws) s =
      (Some msg, s\<lparr>collectorsDiscovered := card (dom (collectorMap s))\<rparr>)) \<or>
   runWatch d (w # ws) s =
      runWatch d ws (s\<lparr>collectorsDiscovered := card (dom (collectorMap s))\<rparr>) \<or>
   (\<exists>m. runWatch d (w # ws) s =
      runWatch d ws (s\<lparr>collectorsDiscovered := card (dom (collectorMap s)),
                       collectorMap := m, calls := calls s @ [Fn m]\<rparr>))"
  by (auto simp: Let_def split: option.splits select_case.splits chan.splits object.splits)

lemma runWatch_calls:
  "\<exists>xs. calls (snd (runWatch d ws s)) = calls s @ xs \<and> (\<forall>c \<in> set xs. is_Fn c)"
proof (induction ws arbitrary: s)
  case Nil
  show ?case by simp
next
  case (Cons w ws)
  let ?s0 = "s\<lparr>collectorsDiscovered := card (dom (collectorMap s))\<rparr>"
  from runWatch_step [of d w ws s] consider
    (ret) msg where "runWatch d (w # ws) s = (Some msg, ?s0)"
  | (skip) "runWatch d (w # ws) s = runWatch d ws ?s0"
  | (event) m where "runWatch d (w # ws) s =
        runWatch d ws (?s0\<lparr>collectorMap := m, calls := calls s @ [Fn m]\<rparr>)"
    by auto
  then show ?case
  proof cases
    case ret
    then show ?thesis by simp
  next
    case skip
    with Cons.IH [of ?s0] show ?thesis by simp
  next
    case event
    from Cons.IH [of "?s0\<lparr>collectorMap := m, calls := calls s @ [Fn m]\<rparr>"]
    obtain xs where
      "calls (snd (runWatch d ws (?s0\<lparr>collectorMap := m, calls := calls s @ [Fn m]\<rparr>)))
         = (calls s @ [Fn m]) @ xs" and "\<forall>c \<in> set xs. is_Fn c"
      by auto
    with event have "calls (snd (runWatch d (w # ws) s)) = calls s @ (Fn m # xs) \<and>
        (\<forall>c \<in> set (Fn m # xs). is_Fn c)"
      by simp
    then show ?thesis by blast
  qed
qed

lemma runWatch_event:
  assumes "select d w = Some CaseEvent" and "events w = Head e" and "Object e = PodObject pod"
  shows "runWatch d (w # ws) s =
         runWatch d ws
           (s\<lparr>collectorsDiscovered := card (dom (collectorMap s)),
              collectorMap :=
                (case Type e of
                   Added \<Rightarrow> (collectorMap s)(Name pod \<mapsto> NewCollector (Name pod))
                 | Deleted \<Rightarrow> (collectorMap s)(Name pod := None)
                 | _ \<Rightarrow> collectorMap s),
              calls := calls s @
                [Fn (case Type e of
                       Added \<Rightarrow> (collectorMap s)(Name pod \<mapsto> NewCollector (Name pod))
                     | Deleted \<Rightarrow> (collectorMap s)(Name pod := None)
                     | _ \<Rightarrow> collectorMap s)]\<rparr>)"
  using assms by (cases "Type e") (simp_all add: Let_def)

subsection \<open>Sessions\<close>

lemma restartWatch_calls:
  "\<exists>xs. calls (snd (restartWatch ctx e s)) = calls s @ Watch_Pods (WithTimeout ctx (start e) watcherTimeout) # xs"
proof (cases "subscription e")
  case (Inl err)
  then show ?thesis by (simp add: restartWatch_def)
next
  case (Inr c)
  let ?d = "WithTimeout ctx (start e) watcherTimeout"
  let ?s1 = "s\<lparr>calls := calls s @ [Watch_Pods ?d]\<rparr>"
  obtain xs where xs: "calls (snd (runWatch ?d c ?s1)) = calls ?s1 @ xs"
    using runWatch_calls [of ?d c ?s1] by blast
  have "snd (restartWatch ctx e s) = snd (runWatch ?d c ?s1)"
    using Inr by (simp add: restartWatch_def Let_def split: prod.splits option.splits)
  with xs show ?thesis by simp
qed

lemma watchLoop_grows: "\<exists>xs. calls (snd (watchLoop ctx es s)) = calls s @ xs"
proof (induction es arbitrary: s)
  case Nil
  show ?case by simp
next
  case (Cons e es)
  obtain r s' where r: "restartWatch ctx e s = (r, s')"
    by (cases "restartWatch ctx e s")
  obtain xs where xs: "calls s' = calls s @ Watch_Pods (WithTimeout ctx (start e) watcherTimeout) # xs"
    using restartWatch_calls [of ctx e s] r by auto
  show ?case
  proof (cases "r = Some True")
    case False
    then have "snd (watchLoop ctx (e # es) s) = s'"
      using r by (auto split: option.splits bool.splits)
    with xs show ?thesis by simp
  next
    case True
    then have eq: "watchLoop ctx (e # es) s = watchLoop ctx es s'"
      using r by simp
    from Cons.IH [of s'] obtain ys where "calls (snd (watchLoop ctx es s')) = calls s' @ ys"
      by auto
    with xs eq show ?thesis by simp
  qed
qed

lemma watchLoop_opens_next:
  "\<exists>later. calls (snd (watchLoop ctx (e # es) s)) =
     calls s @ Watch_Pods (WithTimeout ctx (start e) watcherTimeout) # later"
proof -
  obtain r s' where r: "restartWatch ctx e s = (r, s')"
    by (cases "restartWatch ctx e s")
  obtain xs where xs: "calls s' = calls s @ Watch_Pods (WithTimeout ctx (start e) watcherTimeout) # xs"
    using restartWatch_calls [of ctx e s] r by auto
  show ?thesis
  proof (cases "r = Some True")
    case False
    then have "snd (watchLoop ctx (e # es) s) = s'"
      using r by (auto split: option.splits bool.splits)
    with xs show ?thesis by simp
  next
    case True
    then have eq: "watchLoop ctx (e # es) s = watchLoop ctx es s'"
      using r by simp
    obtain ys where "calls (snd (watchLoop ctx es s')) = calls s' @ ys"
      using watchLoop_grows [of ctx es s'] by auto
    with xs eq show ?thesis by simp
  qed
qed

lemma watchLoop_append:
  "watchLoop ctx es1 s0 = (Pending, s) \<Longrightarrow> watchLoop ctx (es1 @ es) s0 = watchLoop ctx es s"
  by (induction es1 arbitrary: s0)
     (auto split: prod.splits option.splits bool.splits)

lemma watchLoop_no_error: "fst (watchLoop ctx es s) \<noteq> Returned (Some err)"
  by (induction es arbitrary: s)
     (auto split: prod.splits option.splits bool.splits)

lemma watchLoop_no_exit: "fst (watchLoop ctx es s) \<noteq> Exited n"
  by (induction es arbitrary: s)
     (auto split: prod.splits option.splits bool.splits)

lemma Watch_append:
  "Watch ctx listing es1 = (Pending, s) \<Longrightarrow> Watch ctx listing (es1 @ es) = watchLoop ctx es s"
  by (cases listing) (auto simp: Watch_def Let_def intro: watchLoop_append)

lemma Watch_listed:
  "Watch ctx (Inr items) es =
   watchLoop ctx es \<lparr>collectorMap = bootstrap items Map.empty, collectorsDiscovered = 0,
                 calls = [List_Pods, Fn (bootstrap items Map.empty)]\<rparr>"
  by (simp add: Watch_def init_def Let_def)

lemma session_returns:
  assumes at: "Watch ctx listing es1 = (Pending, s)"
    and sub: "subscription e = Inr (pre @ w # ws)"
    and pre: "runWatch (WithTimeout ctx (start e) watcherTimeout) pre
                (s\<lparr>calls := calls s @ [Watch_Pods (WithTimeout ctx (start e) watcherTimeout)]\<rparr>) = (None, s2)"
    and ret: "runWatch (WithTimeout ctx (start e) watcherTimeout) (w # ws) s2 = (Some msg, s2)"
  shows "restartWatch ctx e s = (Some (msg = ''''), s2)"
    and "Watch ctx listing (es1 @ e # es) =
           (if msg = '''' then watchLoop ctx es s2 else (Returned None, s2))"
proof -
  let ?d = "WithTimeout ctx (start e) watcherTimeout"
  let ?s1 = "s\<lparr>calls := calls s @ [Watch_Pods ?d]\<rparr>"
  have "runWatch ?d (pre @ w # ws) ?s1 = runWatch ?d (w # ws) (snd (runWatch ?d pre ?s1))"
    by (rule runWatch_append) (simp add: pre)
  with pre ret have "runWatch ?d (pre @ w # ws) ?s1 = (Some msg, s2)"
    by simp
  with sub show r: "restartWatch ctx e s = (Some (msg = ''''), s2)"
    by (simp add: restartWatch_def Let_def)
  have "Watch ctx listing (es1 @ e # es) = watchLoop ctx (e # es) s"
    using at by (rule Watch_append)
  with r show "Watch ctx listing (es1 @ e # es) =
           (if msg = '''' then watchLoop ctx es s2 else (Returned None, s2))"
    by simp
qed

subsection \<open>Bootstrap\<close>

lemma bootstrap_lookup:
  "bootstrap items m n =
   (if \<exists>p \<in> set items. Name p = n \<and> DeletionTimestamp p = None
    then Some (NewCollector n) else m n)"
  by (induction items arbitrary: m) auto

subsection \<open>The map stays finite\<close>

text \<open>
  \<open>len(collectorMap)\<close> is \<open>card (dom m)\<close> only for a finite map. Every map the code
  builds is finite.
\<close>

lemma bootstrap_finite: "finite (dom m) \<Longrightarrow> finite (dom (bootstrap items m))"
  by (induction items arbitrary: m) auto

lemma runWatch_finite:
  "finite (dom (collectorMap s)) \<Longrightarrow> finite (dom (collectorMap (snd (runWatch d ws s))))"
proof (induction ws arbitrary: s)
  case Nil
  then show ?case by simp
next
  case (Cons w ws)
  let ?s0 = "s\<lparr>collectorsDiscovered := card (dom (collectorMap s))\<rparr>"
  show ?case
  proof (cases "\<exists>e pod. select d w = Some CaseEvent \<and> events w = Head e \<and>
                  Object e = PodObject pod")
    case True
    then obtain e pod where ev: "select d w = Some CaseEvent" "events w = Head e"
        "Object e = PodObject pod"
      by blast
    let ?m = "case Type e of
                Added \<Rightarrow> (collectorMap s)(Name pod \<mapsto> NewCollector (Name pod))
              | Deleted \<Rightarrow> (collectorMap s)(Name pod := None)
              | _ \<Rightarrow> collectorMap s"
    let ?s1 = "s\<lparr>collectorsDiscovered := card (dom (collectorMap s)),
                 collectorMap := ?m, calls := calls s @ [Fn ?m]\<rparr>"
    have "finite (dom ?m)"
      using Cons.prems by (cases "Type e") simp_all
    then have "finite (dom (collectorMap (snd (runWatch d ws ?s1))))"
      by (intro Cons.IH) simp
    with runWatch_event [OF ev, of ws s] show ?thesis by simp
  next
    case False
    then have "runWatch d (w # ws) s = runWatch d ws ?s0 \<or>
               (\<exists>msg. runWatch d (w # ws) s = (Some msg, ?s0))"
      by (auto simp: Let_def split: option.splits select_case.splits chan.splits object.splits)
    moreover have "finite (dom (collectorMap (snd (runWatch d ws ?s0))))"
      using Cons.prems by (intro Cons.IH) simp
    ultimately show ?thesis using Cons.prems by auto
  qed
qed

lemma restartWatch_finite:
  "finite (dom (collectorMap s)) \<Longrightarrow> finite (dom (collectorMap (snd (restartWatch ctx e s))))"
proof (cases "subscription e")
  case (Inl err)
  assume "finite (dom (collectorMap s))"
  with Inl show ?thesis by (simp add: restartWatch_def)
next
  case (Inr c)
  let ?d = "WithTimeout ctx (start e) watcherTimeout"
  let ?s1 = "s\<lparr>calls := calls s @ [Watch_Pods ?d]\<rparr>"
  assume "finite (dom (collectorMap s))"
  then have "finite (dom (collectorMap (snd (runWatch ?d c ?s1))))"
    by (intro runWatch_finite) simp
  moreover have "snd (restartWatch ctx e s) = snd (runWatch ?d c ?s1)"
    using Inr by (simp add: restartWatch_def Let_def split: prod.splits option.splits)
  ultimately show ?thesis by simp
qed

lemma watchLoop_finite:
  "finite (dom (collectorMap s)) \<Longrightarrow> finite (dom (collectorMap (snd (watchLoop ctx es s))))"
proof (induction es arbitrary: s)
  case Nil
  then show ?case by simp
next
  case (Cons e es)
  from Cons.prems have "finite (dom (collectorMap (snd (restartWatch ctx e s))))"
    by (rule restartWatch_finite)
  then show ?case
    using Cons.IH [of "snd (restartWatch ctx e s)"]
    by (auto split: prod.splits option.splits bool.splits)
qed

lemma Watch_finite: "finite (dom (collectorMap (snd (Watch ctx listing sessions))))"
  by (cases listing)
     (simp_all add: Watch_def init_def Let_def watchLoop_finite bootstrap_finite)

subsection \<open>Evaluation\<close>

lemmas durations = watcherTimeout_def Minute_def Second_def Millisecond_def Microsecond_def
  Nanosecond_def WithTimeout_def Background_def

lemmas waits = select_def ready_def ctx_done_def

section \<open>The claims\<close>

text \<open>
  C1. For every Added event that the processor receives and that carries a pod, the entry
  under the pod's name is set to the collector of that name (inserted or overwritten) and
  \<open>fn\<close> is then called with the resulting map; for every Deleted event the entry under
  the pod's name is removed and \<open>fn\<close> is then called with the resulting map. In both
  cases the loop goes on from the updated map.
\<close>

theorem runWatch_Added_Deleted:
  assumes "select d w = Some CaseEvent" and "events w = Head e" and "Object e = PodObject pod"
  shows "(Type e = Added \<longrightarrow>
            runWatch d (w # ws) s =
              runWatch d ws
                (s\<lparr>collectorsDiscovered := card (dom (collectorMap s)),
                   collectorMap := (collectorMap s)(Name pod \<mapsto> NewCollector (Name pod)),
                   calls := calls s @
                     [Fn ((collectorMap s)(Name pod \<mapsto> NewCollector (Name pod)))]\<rparr>)
            \<and> (\<exists>later. calls (snd (runWatch d (w # ws) s)) =
                  calls s @ Fn ((collectorMap s)(Name pod \<mapsto> NewCollector (Name pod))) # later))
       \<and> (Type e = Deleted \<longrightarrow>
            runWatch d (w # ws) s =
              runWatch d ws
                (s\<lparr>collectorsDiscovered := card (dom (collectorMap s)),
                   collectorMap := (collectorMap s)(Name pod := None),
                   calls := calls s @ [Fn ((collectorMap s)(Name pod := None))]\<rparr>)
            \<and> (\<exists>later. calls (snd (runWatch d (w # ws) s)) =
                  calls s @ Fn ((collectorMap s)(Name pod := None)) # later))"
proof (intro conjI impI)
  assume t: "Type e = Added"
  let ?m = "(collectorMap s)(Name pod \<mapsto> NewCollector (Name pod))"
  let ?s1 = "s\<lparr>collectorsDiscovered := card (dom (collectorMap s)),
               collectorMap := ?m, calls := calls s @ [Fn ?m]\<rparr>"
  show step: "runWatch d (w # ws) s = runWatch d ws ?s1"
    using runWatch_event [OF assms, of ws s] t by simp
  obtain xs where "calls (snd (runWatch d ws ?s1)) = calls ?s1 @ xs"
    using runWatch_calls [of d ws ?s1] by blast
  with step show "\<exists>later. calls (snd (runWatch d (w # ws) s)) = calls s @ Fn ?m # later"
    by simp
next
  assume t: "Type e = Deleted"
  let ?m = "(collectorMap s)(Name pod := None)"
  let ?s1 = "s\<lparr>collectorsDiscovered := card (dom (collectorMap s)),
               collectorMap := ?m, calls := calls s @ [Fn ?m]\<rparr>"
  show step: "runWatch d (w # ws) s = runWatch d ws ?s1"
    using runWatch_event [OF assms, of ws s] t by simp
  obtain xs where "calls (snd (runWatch d ws ?s1)) = calls ?s1 @ xs"
    using runWatch_calls [of d ws ?s1] by blast
  with step show "\<exists>later. calls (snd (runWatch d (w # ws) s)) = calls s @ Fn ?m # later"
    by simp
qed

text \<open>
  With \<open>p1\<close> tracked: an Added event for \<open>p3\<close> gives \<open>{p1, p3}\<close>, a Deleted event for
  \<open>p1\<close> gives the empty set; the callback sees the new set each time.
\<close>

theorem runWatch_Added_Deleted_witness:
  "runWatch 900000000000
     [\<lparr>k = \<lparr>close = Empty\<rparr>, parent_done = False, now = 10,
       events = Head \<lparr>Type = Added,
                      Object = PodObject \<lparr>Name = ''p3'', DeletionTimestamp = None\<rparr>\<rparr>,
       pick = 0\<rparr>]
     \<lparr>collectorMap = [''p1'' \<mapsto> Collector ''p1''], collectorsDiscovered = 1, calls = []\<rparr>
   = (None, \<lparr>collectorMap = [''p1'' \<mapsto> Collector ''p1'', ''p3'' \<mapsto> Collector ''p3''],
             collectorsDiscovered = 2,
             calls = [Fn [''p1'' \<mapsto> Collector ''p1'', ''p3'' \<mapsto> Collector ''p3'']]\<rparr>)
   \<and> runWatch 900000000000
     [\<lparr>k = \<lparr>close = Empty\<rparr>, parent_done = False, now = 10,
       events = Head \<lparr>Type = Deleted,
                      Object = PodObject \<lparr>Name = ''p1'', DeletionTimestamp = Some 9\<rparr>\<rparr>,
       pick = 0\<rparr>]
     \<lparr>collectorMap = [''p1'' \<mapsto> Collector ''p1''], collectorsDiscovered = 1, calls = []\<rparr>
   = (None, \<lparr>collectorMap = Map.empty, collectorsDiscovered = 0, calls = [Fn Map.empty]\<rparr>)"
proof -
  let ?a = "\<lparr>Type = Added, Object = PodObject \<lparr>Name = ''p3'', DeletionTimestamp = None\<rparr>\<rparr>"
  let ?wa = "\<lparr>k = \<lparr>close = Empty\<rparr>, parent_done = False, now = 10, events = Head ?a,
              pick = 0\<rparr>"
  let ?r = "\<lparr>Type = Deleted, Object = PodObject \<lparr>Name = ''p1'', DeletionTimestamp = Some 9\<rparr>\<rparr>"
  let ?wr = "\<lparr>k = \<lparr>close = Empty\<rparr>, parent_done = False, now = 10, events = Head ?r,
              pick = 0\<rparr>"
  let ?s = "\<lparr>collectorMap = [''p1'' \<mapsto> Collector ''p1''], collectorsDiscovered = 1,
             calls = []\<rparr>"
  have sa: "select 900000000000 ?wa = Some CaseEvent"
    by (simp add: waits)
  have sr: "select 900000000000 ?wr = Some CaseEvent"
    by (simp add: waits)
  have da: "dom [''p1'' \<mapsto> Collector ''p1'', ''p3'' \<mapsto> Collector ''p3''] = {''p1'', ''p3''}"
    by auto
  from runWatch_Added_Deleted [OF sa, of ?a "\<lparr>Name = ''p3'', DeletionTimestamp = None\<rparr>" "[]" ?s]
  have a: "runWatch 900000000000 [?wa] ?s
      = (None, \<lparr>collectorMap = [''p1'' \<mapsto> Collector ''p1'', ''p3'' \<mapsto> Collector ''p3''],
             collectorsDiscovered = 2,
             calls = [Fn [''p1'' \<mapsto> Collector ''p1'', ''p3'' \<mapsto> Collector ''p3'']]\<rparr>)"
    by (simp add: NewCollector_def da)
  from runWatch_Added_Deleted [OF sr, of ?r "\<lparr>Name = ''p1'', DeletionTimestamp = Some 9\<rparr>" "[]" ?s]
  have r: "runWatch 900000000000 [?wr] ?s
      = (None, \<lparr>collectorMap = Map.empty, collectorsDiscovered = 0, calls = [Fn Map.empty]\<rparr>)"
    by (simp add: NewCollector_def)
  from a r show ?thesis by simp
qed

text \<open>
  C2. For every result of the bootstrap listing, the initial membership set holds exactly
  one entry per name of a listed replica that carries no deletion timestamp, the
  collector of that name: every listed replica without a deletion timestamp is included
  under its name, and a replica with a deletion timestamp contributes no entry (its name
  is a key only when another listed replica of that name has no deletion timestamp).
  This is the map that \<open>Watch\<close> hands to the callback right after the listing.
\<close>

theorem bootstrap_skips_deleting:
  "bootstrap items Map.empty n =
     (if \<exists>p \<in> set items. Name p = n \<and> DeletionTimestamp p = None
      then Some (NewCollector n) else None)
   \<and> (\<forall>p \<in> set items. DeletionTimestamp p = None \<longrightarrow>
         bootstrap items Map.empty (Name p) = Some (NewCollector (Name p)))
   \<and> (\<forall>p \<in> set items. DeletionTimestamp p \<noteq> None \<longrightarrow>
         (\<forall>q \<in> set items. Name q = Name p \<longrightarrow> q = p) \<longrightarrow>
         bootstrap items Map.empty (Name p) = None)
   \<and> (\<exists>calls'. calls (snd (Watch ctx (Inr items) sessions)) =
         List_Pods # Fn (bootstrap items Map.empty) # calls')"
proof -
  have a: "bootstrap items Map.empty n =
     (if \<exists>p \<in> set items. Name p = n \<and> DeletionTimestamp p = None
      then Some (NewCollector n) else None)" for n
    by (simp add: bootstrap_lookup)
  have b: "\<forall>p \<in> set items. DeletionTimestamp p = None \<longrightarrow>
         bootstrap items Map.empty (Name p) = Some (NewCollector (Name p))"
    by (auto simp: a)
  have c: "\<forall>p \<in> set items. DeletionTimestamp p \<noteq> None \<longrightarrow>
         (\<forall>q \<in> set items. Name q = Name p \<longrightarrow> q = p) \<longrightarrow>
         bootstrap items Map.empty (Name p) = None"
    by (auto simp: a)
  let ?s = "\<lparr>collectorMap = bootstrap items Map.empty, collectorsDiscovered = 0,
                 calls = [List_Pods, Fn (bootstrap items Map.empty)]\<rparr>"
  have "\<exists>xs. calls (snd (watchLoop ctx sessions ?s)) = calls ?s @ xs"
    using watchLoop_grows [of ctx sessions ?s] by auto
  then have d: "\<exists>calls'. calls (snd (Watch ctx (Inr items) sessions)) =
         List_Pods # Fn (bootstrap items Map.empty) # calls'"
    by (simp add: Watch_listed)
  from a b c d show ?thesis by blast
qed

text \<open>
  The listing of the specification: \<open>p1\<close> and \<open>p2\<close> alive, \<open>p3\<close> being deleted. The
  initial set is \<open>{p1, p2}\<close>.
\<close>

theorem bootstrap_skips_deleting_witness:
  "bootstrap [\<lparr>Name = ''p1'', DeletionTimestamp = None\<rparr>,
              \<lparr>Name = ''p2'', DeletionTimestamp = None\<rparr>,
              \<lparr>Name = ''p3'', DeletionTimestamp = Some 7\<rparr>] Map.empty
   = [''p1'' \<mapsto> Collector ''p1'', ''p2'' \<mapsto> Collector ''p2'']"
proof
  fix n
  let ?items = "[\<lparr>Name = ''p1'', DeletionTimestamp = None\<rparr>,
              \<lparr>Name = ''p2'', DeletionTimestamp = None\<rparr>,
              \<lparr>Name = ''p3'', DeletionTimestamp = Some (7::int)\<rparr>]"
  from bootstrap_skips_deleting [of ?items n Background "[]"]
  show "bootstrap ?items Map.empty n =
        [''p1'' \<mapsto> Collector ''p1'', ''p2'' \<mapsto> Collector ''p2''] n"
    by (simp add: NewCollector_def)
qed

text \<open>
  C3. When the bootstrap listing succeeds, the calls \<open>Watch\<close> makes before the first
  watch subscription is opened are exactly the listing followed by one call of \<open>fn\<close> with
  the initial membership set; this holds for an empty listing too, where \<open>fn\<close> receives
  the empty map. When the listing fails, \<open>fn\<close> is not called at all.
\<close>

theorem Watch_calls_fn_once_before_sessions:
  "takeWhile (\<lambda>c. \<not> is_Watch c) (calls (snd (Watch ctx (Inr items) sessions))) =
     [List_Pods, Fn (bootstrap items Map.empty)]
   \<and> takeWhile (\<lambda>c. \<not> is_Watch c) (calls (snd (Watch ctx (Inr []) sessions))) =
     [List_Pods, Fn Map.empty]
   \<and> calls (snd (Watch ctx (Inl err) sessions)) = [List_Pods]"
proof -
  have a: "takeWhile (\<lambda>c. \<not> is_Watch c) (calls (snd (Watch ctx (Inr items) sessions))) =
     [List_Pods, Fn (bootstrap items Map.empty)]" for items
  proof (cases sessions)
    case Nil
    then show ?thesis by (simp add: Watch_listed)
  next
    case (Cons e es)
    let ?s = "\<lparr>collectorMap = bootstrap items Map.empty, collectorsDiscovered = 0,
                 calls = [List_Pods, Fn (bootstrap items Map.empty)]\<rparr>"
    obtain later where "calls (snd (watchLoop ctx (e # es) ?s)) =
        calls ?s @ Watch_Pods (WithTimeout ctx (start e) watcherTimeout) # later"
      using watchLoop_opens_next [of ctx e es ?s] by blast
    with Cons show ?thesis by (simp add: Watch_listed)
  qed
  have b: "calls (snd (Watch ctx (Inl err) sessions)) = [List_Pods]"
    by (simp add: Watch_def init_def Let_def)
  from a [of items] a [of "[]"] b show ?thesis by simp
qed

text \<open>
  An empty listing, then a session that hangs up at once and a subscription that fails:
  \<open>fn\<close> is called once, with the empty map, before the first subscription.
\<close>

theorem Watch_calls_fn_once_before_sessions_witness:
  "calls (snd (Watch Background (Inr [])
     [\<lparr>start = 0, subscription = Inr
         [\<lparr>k = \<lparr>close = Empty\<rparr>, parent_done = False, now = 10, events = Closed,
           pick = 0\<rparr>]\<rparr>,
      \<lparr>start = 30, subscription = Inl ''refused''\<rparr>]))
   = [List_Pods, Fn Map.empty, Watch_Pods 900000000000, Watch_Pods 900000000030]
   \<and> takeWhile (\<lambda>c. \<not> is_Watch c)
       [List_Pods, Fn Map.empty, Watch_Pods 900000000000, Watch_Pods 900000000030]
     = [List_Pods, Fn Map.empty]"
proof -
  let ?ss = "[\<lparr>start = 0, subscription = Inr
         [\<lparr>k = \<lparr>close = Empty\<rparr>, parent_done = False, now = 10, events = Closed,
           pick = 0\<rparr>]\<rparr>,
      \<lparr>start = 30, subscription = Inl ''refused''\<rparr>]"
  have run: "calls (snd (Watch Background (Inr []) ?ss))
      = [List_Pods, Fn Map.empty, Watch_Pods 900000000000, Watch_Pods 900000000030]"
    by (simp add: Watch_def restartWatch_def init_def durations waits Let_def)
  from Watch_calls_fn_once_before_sessions [of Background "[]" ?ss] run
  show ?thesis by simp
qed

text \<open>
  C4, as amended. If \<open>Close\<close> has been signalled, then at the next wake-up at which the
  wait takes the close case, the processor returns the non-empty reason
  \<open>kubernetes client closed\<close>, \<open>restartWatch\<close> reports \<open>false\<close>, the session loop stops
  and \<open>Watch\<close> returns \<open>nil\<close>, with no further call made. The wait takes the close case
  whenever the session context is not done and nothing is pending on the event channel.
  This holds at any wake-up of any session: \<open>es1\<close> are the sessions before, \<open>pre\<close> the
  wakes of this session before.
\<close>

theorem Close_selected_stops_Watch:
  assumes at: "Watch ctx listing es1 = (Pending, s)"
    and sub: "subscription e = Inr (pre @ w # ws)"
    and pre: "runWatch (WithTimeout ctx (start e) watcherTimeout) pre
                (s\<lparr>calls := calls s @ [Watch_Pods (WithTimeout ctx (start e) watcherTimeout)]\<rparr>) = (None, s2)"
    and closed: "close (k w) = Closed"
    and sel: "select (WithTimeout ctx (start e) watcherTimeout) w = Some CaseClose"
  shows "runWatch (WithTimeout ctx (start e) watcherTimeout) (w # ws) s2 = (Some ''kubernetes client closed'', s2)
       \<and> restartWatch ctx e s = (Some False, s2)
       \<and> Watch ctx listing (es1 @ e # es) = (Returned None, s2)
       \<and> (\<forall>w'. close (k w') = Closed \<and> \<not> ctx_done (WithTimeout ctx (start e) watcherTimeout) w' \<and>
                events w' = Empty \<longrightarrow>
             select (WithTimeout ctx (start e) watcherTimeout) w' = Some CaseClose)"
proof -
  let ?d = "WithTimeout ctx (start e) watcherTimeout"
  have s2: "s2\<lparr>collectorsDiscovered := card (dom (collectorMap s2))\<rparr> = s2"
    using pre by (rule runWatch_waiting_state)
  have ret: "runWatch ?d (w # ws) s2 = (Some ''kubernetes client closed'', s2)"
    using sel s2 by (simp add: Let_def)
  note r = session_returns [OF at sub pre ret]
  from r(1) have a: "restartWatch ctx e s = (Some False, s2)" by simp
  from r(2) [of es] have b: "Watch ctx listing (es1 @ e # es) = (Returned None, s2)" by simp
  from ret a b show ?thesis by (simp add: select_only_close)
qed

text \<open>
  The client is closed and nothing else is ready: \<open>Watch\<close> returns \<open>nil\<close> after the one
  subscription, and the second session is never opened.
\<close>

theorem Close_selected_stops_Watch_witness:
  "Close \<lparr>close = Empty\<rparr> = Inr \<lparr>close = Closed\<rparr>
   \<and> Watch Background (Inr [])
       [\<lparr>start = 0, subscription = Inr
          [\<lparr>k = \<lparr>close = Closed\<rparr>, parent_done = False, now = 10, events = Empty, pick = 7\<rparr>]\<rparr>,
        \<lparr>start = 30, subscription = Inr []\<rparr>]
     = (Returned None,
        \<lparr>collectorMap = Map.empty, collectorsDiscovered = 0,
         calls = [List_Pods, Fn Map.empty, Watch_Pods 900000000000]\<rparr>)"
proof -
  let ?w = "\<lparr>k = \<lparr>close = Closed\<rparr>, parent_done = False, now = 10, events = Empty, pick = 7\<rparr>"
  let ?e = "\<lparr>start = 0, subscription = Inr [?w]\<rparr>"
  let ?s = "\<lparr>collectorMap = Map.empty, collectorsDiscovered = 0,
             calls = [List_Pods, Fn Map.empty]\<rparr>"
  let ?s2 = "\<lparr>collectorMap = Map.empty, collectorsDiscovered = 0,
              calls = [List_Pods, Fn Map.empty, Watch_Pods 900000000000]\<rparr>"
  have at: "Watch Background (Inr []) [] = (Pending, ?s)"
    by (simp add: Watch_def init_def Let_def)
  have sub: "subscription ?e = Inr ([] @ ?w # [])" by simp
  have pre: "runWatch (WithTimeout Background (start ?e) watcherTimeout) []
               (?s\<lparr>calls := calls ?s @ [Watch_Pods (WithTimeout Background (start ?e) watcherTimeout)]\<rparr>) = (None, ?s2)"
    by (simp add: durations)
  have cl: "close (k ?w) = Closed" by simp
  have sel: "select (WithTimeout Background (start ?e) watcherTimeout) ?w = Some CaseClose"
    by (simp add: durations waits)
  from Close_selected_stops_Watch [OF at sub pre cl sel, of "[\<lparr>start = 30, subscription = Inr []\<rparr>]"]
  show ?thesis by (simp add: Close_def)
qed

text \<open>
  C4 as stated, that the very next wake-up after \<open>Close\<close> yields the terminal reason and
  stops the loop, fails when another case of the \<open>select\<close> is ready as well, since Go
  chooses among the ready cases at random. Here the client is closed and the event
  channel has hung up; the runtime takes the event case. The processor returns the
  empty reason, the loop opens a second subscription, and only the wake-up of that
  second session ends \<open>Watch\<close>. With an Added event pending instead of the hang-up,
  the processor handles the event and does not return at that wake-up.
\<close>

theorem Close_signalled_not_terminal_counterexample:
  "Close \<lparr>close = Empty\<rparr> = Inr \<lparr>close = Closed\<rparr>
   \<and> runWatch 900000000000
       [\<lparr>k = \<lparr>close = Closed\<rparr>, parent_done = False, now = 10, events = Closed, pick = 1\<rparr>]
       init
     = (Some '''', init)
   \<and> Watch Background (Inr [])
       [\<lparr>start = 0, subscription = Inr
          [\<lparr>k = \<lparr>close = Closed\<rparr>, parent_done = False, now = 10, events = Closed, pick = 1\<rparr>]\<rparr>,
        \<lparr>start = 30, subscription = Inr
          [\<lparr>k = \<lparr>close = Closed\<rparr>, parent_done = False, now = 40, events = Empty, pick = 0\<rparr>]\<rparr>]
     = (Returned None,
        \<lparr>collectorMap = Map.empty, collectorsDiscovered = 0,
         calls = [List_Pods, Fn Map.empty, Watch_Pods 900000000000, Watch_Pods 900000000030]\<rparr>)
   \<and> runWatch 900000000000
       [\<lparr>k = \<lparr>close = Closed\<rparr>, parent_done = False, now = 10,
         events = Head \<lparr>Type = Added,
                        Object = PodObject \<lparr>Name = ''p1'', DeletionTimestamp = None\<rparr>\<rparr>,
         pick = 1\<rparr>]
       init
     = (None, \<lparr>collectorMap = [''p1'' \<mapsto> Collector ''p1''], collectorsDiscovered = 1,
               calls = [Fn [''p1'' \<mapsto> Collector ''p1'']]\<rparr>)"
  by (simp add: Close_def Watch_def restartWatch_def init_def durations waits Let_def
      NewCollector_def)

text \<open>
  C5. If the event channel is found closed at a wake-up while \<open>Close\<close> has not been
  called, then whichever ready case the runtime takes, the processor returns the empty
  reason with the state (and so the membership set) as it was, \<open>restartWatch\<close> reports
  \<open>true\<close>, \<open>Watch\<close> does not return but is back at the head of its loop, and its next
  call opens a new subscription, entered with that same state.
\<close>

theorem hangup_opens_new_session:
  assumes at: "Watch ctx listing es1 = (Pending, s)"
    and sub: "subscription e = Inr (pre @ w # ws)"
    and pre: "runWatch (WithTimeout ctx (start e) watcherTimeout) pre
                (s\<lparr>calls := calls s @ [Watch_Pods (WithTimeout ctx (start e) watcherTimeout)]\<rparr>) = (None, s2)"
    and not_closed: "close (k w) = Empty"
    and hangup: "events w = Closed"
  shows "runWatch (WithTimeout ctx (start e) watcherTimeout) (w # ws) s2 = (Some '''', s2)
       \<and> restartWatch ctx e s = (Some True, s2)
       \<and> Watch ctx listing (es1 @ [e]) = (Pending, s2)
       \<and> Watch ctx listing (es1 @ e # e' # es) = watchLoop ctx (e' # es) s2
       \<and> (\<exists>later. calls (snd (Watch ctx listing (es1 @ e # e' # es))) =
             calls s2 @ Watch_Pods (WithTimeout ctx (start e') watcherTimeout) # later)"
proof -
  let ?d = "WithTimeout ctx (start e) watcherTimeout"
  have s2: "s2\<lparr>collectorsDiscovered := card (dom (collectorMap s2))\<rparr> = s2"
    using pre by (rule runWatch_waiting_state)
  from select_hangup [OF not_closed hangup, of ?d]
  have ret: "runWatch ?d (w # ws) s2 = (Some '''', s2)"
    using hangup s2 by (auto simp: Let_def)
  note r = session_returns [OF at sub pre ret]
  from r(2) [of "[]"] have one: "Watch ctx listing (es1 @ [e]) = (Pending, s2)"
    by simp
  from r(2) [of "e' # es"] have two: "Watch ctx listing (es1 @ e # e' # es) = watchLoop ctx (e' # es) s2"
    by simp
  from watchLoop_opens_next [of ctx e' es s2] two
  have three: "\<exists>later. calls (snd (Watch ctx listing (es1 @ e # e' # es))) =
             calls s2 @ Watch_Pods (WithTimeout ctx (start e') watcherTimeout) # later"
    by simp
  from ret r(1) one two three show ?thesis by simp
qed

text \<open>
  \<open>p1\<close> is listed, \<open>p3\<close> is added, the server hangs up: the second subscription is
  opened and the set is still \<open>{p1, p3}\<close>.
\<close>

theorem hangup_opens_new_session_witness:
  "Watch Background (Inr [\<lparr>Name = ''p1'', DeletionTimestamp = None\<rparr>])
     [\<lparr>start = 0, subscription = Inr
         [\<lparr>k = \<lparr>close = Empty\<rparr>, parent_done = False, now = 10,
           events = Head \<lparr>Type = Added,
                          Object = PodObject \<lparr>Name = ''p3'', DeletionTimestamp = None\<rparr>\<rparr>,
           pick = 0\<rparr>,
          \<lparr>k = \<lparr>close = Empty\<rparr>, parent_done = False, now = 20, events = Closed, pick = 0\<rparr>]\<rparr>,
      \<lparr>start = 30, subscription = Inr []\<rparr>]
   = (Blocked,
      \<lparr>collectorMap = [''p1'' \<mapsto> Collector ''p1'', ''p3'' \<mapsto> Collector ''p3''],
       collectorsDiscovered = 2,
       calls = [List_Pods, Fn [''p1'' \<mapsto> Collector ''p1''], Watch_Pods 900000000000,
                Fn [''p1'' \<mapsto> Collector ''p1'', ''p3'' \<mapsto> Collector ''p3''],
                Watch_Pods 900000000030]\<rparr>)"
proof -
  let ?items = "[\<lparr>Name = ''p1'', DeletionTimestamp = None\<rparr>]"
  let ?m1 = "[''p1'' \<mapsto> Collector ''p1'']"
  let ?m2 = "[''p1'' \<mapsto> Collector ''p1'', ''p3'' \<mapsto> Collector ''p3'']"
  let ?wa = "\<lparr>k = \<lparr>close = Empty\<rparr>, parent_done = False, now = 10,
           events = Head \<lparr>Type = Added,
                          Object = PodObject \<lparr>Name = ''p3'', DeletionTimestamp = None\<rparr>\<rparr>,
           pick = 0\<rparr>"
  let ?wh = "\<lparr>k = \<lparr>close = Empty\<rparr>, parent_done = False, now = 20, events = Closed, pick = 0\<rparr>"
  let ?e = "\<lparr>start = 0, subscription = Inr [?wa, ?wh]\<rparr>"
  let ?e' = "\<lparr>start = 30, subscription = Inr []\<rparr>"
  let ?s = "\<lparr>collectorMap = ?m1, collectorsDiscovered = 0, calls = [List_Pods, Fn ?m1]\<rparr>"
  let ?s2 = "\<lparr>collectorMap = ?m2, collectorsDiscovered = 2,
              calls = [List_Pods, Fn ?m1, Watch_Pods 900000000000, Fn ?m2]\<rparr>"
  have d2: "dom ?m2 = {''p1'', ''p3''}" by auto
  have at: "Watch Background (Inr ?items) [] = (Pending, ?s)"
    by (simp add: Watch_def init_def Let_def NewCollector_def)
  have sub: "subscription ?e = Inr ([?wa] @ ?wh # [])" by simp
  have pre: "runWatch (WithTimeout Background (start ?e) watcherTimeout) [?wa]
               (?s\<lparr>calls := calls ?s @ [Watch_Pods (WithTimeout Background (start ?e) watcherTimeout)]\<rparr>) = (None, ?s2)"
    by (simp add: durations waits Let_def NewCollector_def d2)
  have nc: "close (k ?wh) = Empty" by simp
  have hu: "events ?wh = Closed" by simp
  from hangup_opens_new_session [OF at sub pre nc hu, of ?e' "[]"]
  have "Watch Background (Inr ?items) [?e, ?e'] = watchLoop Background [?e'] ?s2"
    by simp
  also have "watchLoop Background [?e'] ?s2 =
      (Blocked, ?s2\<lparr>calls := calls ?s2 @ [Watch_Pods 900000000030]\<rparr>)"
    by (simp add: restartWatch_def durations Let_def d2)
  finally show ?thesis by simp
qed

text \<open>
  C6. If the bootstrap listing fails, the process terminates (\<open>os.Exit(1)\<close>, with the
  listing the only call made), and whatever the listing and the sessions are, \<open>Watch\<close>
  never returns an error value to its caller.
\<close>

theorem failed_listing_exits:
  "Watch ctx (Inl err) sessions = (Exited 1, init\<lparr>calls := [List_Pods]\<rparr>)
   \<and> fst (Watch ctx listing sessions) \<noteq> Returned (Some err')"
proof -
  have "fst (Watch ctx listing sessions) \<noteq> Returned (Some err')"
  proof (cases listing)
    case (Inl a)
    then show ?thesis by (simp add: Watch_def Let_def)
  next
    case (Inr items)
    then show ?thesis by (simp add: Watch_listed watchLoop_no_error)
  qed
  then show ?thesis by (simp add: Watch_def Let_def)
qed

text \<open>
  C7. If the subscription of a session cannot be established, \<open>restartWatch\<close> reports
  \<open>false\<close>, the session loop ends and \<open>Watch\<close> returns \<open>nil\<close>: the sessions the
  environment would still offer are never opened. This holds at the head of the loop
  after any number of earlier sessions.
\<close>

theorem failed_subscription_stops_Watch:
  assumes "Watch ctx listing es1 = (Pending, s)"
    and "subscription e = Inl err"
  shows "restartWatch ctx e s =
           (Some False, s\<lparr>calls := calls s @ [Watch_Pods (WithTimeout ctx (start e) watcherTimeout)]\<rparr>)
       \<and> Watch ctx listing (es1 @ e # es) =
           (Returned None, s\<lparr>calls := calls s @ [Watch_Pods (WithTimeout ctx (start e) watcherTimeout)]\<rparr>)"
proof -
  have r: "restartWatch ctx e s =
      (Some False, s\<lparr>calls := calls s @ [Watch_Pods (WithTimeout ctx (start e) watcherTimeout)]\<rparr>)"
    using assms(2) by (simp add: restartWatch_def)
  have "Watch ctx listing (es1 @ e # es) = watchLoop ctx (e # es) s"
    using assms(1) by (rule Watch_append)
  with r show ?thesis by simp
qed

text \<open>
  The first subscription is refused: \<open>Watch\<close> returns \<open>nil\<close> and the second session is
  never opened.
\<close>

theorem failed_subscription_stops_Watch_witness:
  "Watch Background (Inr [\<lparr>Name = ''p1'', DeletionTimestamp = None\<rparr>]) [] =
     (Pending, \<lparr>collectorMap = [''p1'' \<mapsto> Collector ''p1''], collectorsDiscovered = 0,
                calls = [List_Pods, Fn [''p1'' \<mapsto> Collector ''p1'']]\<rparr>)
   \<and> Watch Background (Inr [\<lparr>Name = ''p1'', DeletionTimestamp = None\<rparr>])
       [\<lparr>start = 5, subscription = Inl ''connection refused''\<rparr>,
        \<lparr>start = 6, subscription = Inr []\<rparr>] =
     (Returned None,
      \<lparr>collectorMap = [''p1'' \<mapsto> Collector ''p1''], collectorsDiscovered = 0,
       calls = [List_Pods, Fn [''p1'' \<mapsto> Collector ''p1''], Watch_Pods 900000000005]\<rparr>)"
proof -
  let ?items = "[\<lparr>Name = ''p1'', DeletionTimestamp = None\<rparr>]"
  let ?s = "\<lparr>collectorMap = [''p1'' \<mapsto> Collector ''p1''], collectorsDiscovered = 0,
                calls = [List_Pods, Fn [''p1'' \<mapsto> Collector ''p1'']]\<rparr>"
  let ?e = "\<lparr>start = 5, subscription = Inl ''connection refused''\<rparr>"
  have h1: "Watch Background (Inr ?items) [] = (Pending, ?s)"
    by (simp add: Watch_def init_def Let_def NewCollector_def)
  have h2: "subscription ?e = Inl ''connection refused''"
    by simp
  from failed_subscription_stops_Watch [OF h1 h2, of "[\<lparr>start = 6, subscription = Inr []\<rparr>]"] h1
  show ?thesis
    by (simp add: durations)
qed

text \<open>
  C8, as amended. The session timeout is exactly 15 minutes (in nanoseconds). Every
  subscription is opened under a context derived beforehand, whose deadline is the clock
  at the start of \<open>restartWatch\<close> plus that timeout, or the deadline of the caller's
  context when that one is earlier. Unless the caller's context is done, the context
  case of the wait is ready exactly from that deadline on, and it is the case taken when
  \<open>Close\<close> has not been signalled and nothing is pending on the event channel. At a
  wake-up at or after the deadline at which the wait takes the context case, the
  processor returns the empty reason with the state as it was, \<open>restartWatch\<close> reports
  \<open>true\<close>, \<open>Watch\<close> is back at the head of its loop and its next call opens a new
  subscription.
\<close>

theorem session_deadline_fifteen_minutes:
  assumes at: "Watch ctx listing es1 = (Pending, s)"
    and sub: "subscription e = Inr (pre @ w # ws)"
    and pre: "runWatch (WithTimeout ctx (start e) watcherTimeout) pre
                (s\<lparr>calls := calls s @ [Watch_Pods (WithTimeout ctx (start e) watcherTimeout)]\<rparr>)
              = (None, s2)"
    and expired: "WithTimeout ctx (start e) watcherTimeout \<le> now w"
    and sel: "select (WithTimeout ctx (start e) watcherTimeout) w = Some CaseCtxDone"
  shows "watcherTimeout = 15 * 60 * 1000000000
       \<and> WithTimeout ctx (start e) watcherTimeout =
           (case Deadline ctx of
              None \<Rightarrow> start e + 15 * 60 * 1000000000
            | Some cur \<Rightarrow> min cur (start e + 15 * 60 * 1000000000))
       \<and> (\<exists>later. calls (snd (Watch ctx listing (es1 @ e # es))) =
             calls s @ Watch_Pods (WithTimeout ctx (start e) watcherTimeout) # later)
       \<and> (\<forall>w'. \<not> parent_done w' \<longrightarrow>
             (CaseCtxDone \<in> set (ready (WithTimeout ctx (start e) watcherTimeout) w') \<longleftrightarrow>
              WithTimeout ctx (start e) watcherTimeout \<le> now w'))
       \<and> (\<forall>w'. WithTimeout ctx (start e) watcherTimeout \<le> now w' \<and> close (k w') = Empty \<and>
                events w' = Empty \<longrightarrow>
             select (WithTimeout ctx (start e) watcherTimeout) w' = Some CaseCtxDone)
       \<and> runWatch (WithTimeout ctx (start e) watcherTimeout) (w # ws) s2 = (Some '''', s2)
       \<and> restartWatch ctx e s = (Some True, s2)
       \<and> Watch ctx listing (es1 @ [e]) = (Pending, s2)
       \<and> (\<exists>later. calls (snd (Watch ctx listing (es1 @ e # e' # es))) =
             calls s2 @ Watch_Pods (WithTimeout ctx (start e') watcherTimeout) # later)"
proof -
  let ?d = "WithTimeout ctx (start e) watcherTimeout"
  have wt: "watcherTimeout = 15 * 60 * 1000000000"
    by (simp add: watcherTimeout_def Minute_def Second_def Millisecond_def Microsecond_def
        Nanosecond_def)
  have dl: "?d = (case Deadline ctx of
              None \<Rightarrow> start e + 15 * 60 * 1000000000
            | Some cur \<Rightarrow> min cur (start e + 15 * 60 * 1000000000))"
    by (simp add: WithTimeout_def wt min_def split: option.splits)
  have "Watch ctx listing (es1 @ e # es) = watchLoop ctx (e # es) s"
    using at by (rule Watch_append)
  with watchLoop_opens_next [of ctx e es s]
  have derived: "\<exists>later. calls (snd (Watch ctx listing (es1 @ e # es))) =
             calls s @ Watch_Pods ?d # later"
    by simp
  have rdy: "\<forall>w'. \<not> parent_done w' \<longrightarrow> (CaseCtxDone \<in> set (ready ?d w') \<longleftrightarrow> ?d \<le> now w')"
    by (simp add: ready_def ctx_done_def)
  have forced: "\<forall>w'. ?d \<le> now w' \<and> close (k w') = Empty \<and> events w' = Empty \<longrightarrow>
             select ?d w' = Some CaseCtxDone"
    by (simp add: select_only_ctx ctx_done_def)
  have s2: "s2\<lparr>collectorsDiscovered := card (dom (collectorMap s2))\<rparr> = s2"
    using pre by (rule runWatch_waiting_state)
  have ret: "runWatch ?d (w # ws) s2 = (Some '''', s2)"
    using sel s2 by (simp add: Let_def)
  note r = session_returns [OF at sub pre ret]
  from r(1) have a: "restartWatch ctx e s = (Some True, s2)" by simp
  from r(2) [of "[]"] have one: "Watch ctx listing (es1 @ [e]) = (Pending, s2)"
    by simp
  from r(2) [of "e' # es"]
  have two: "Watch ctx listing (es1 @ e # e' # es) = watchLoop ctx (e' # es) s2"
    by simp
  from watchLoop_opens_next [of ctx e' es s2] two
  have three: "\<exists>later. calls (snd (Watch ctx listing (es1 @ e # e' # es))) =
             calls s2 @ Watch_Pods (WithTimeout ctx (start e') watcherTimeout) # later"
    by simp
  from wt dl derived rdy forced ret a one three show ?thesis by blast
qed

text \<open>
  A caller whose context expires 20 minutes after the first session starts. The first
  session, started at 1000 ns, gets the full 15 minutes: at 900000001000 ns its context is
  done, the session ends and the next one is opened, with the set \<open>{p3}\<close> kept. The
  second session gets the caller's deadline, which is the earlier one.
\<close>

theorem session_deadline_fifteen_minutes_witness:
  "Watch \<lparr>Deadline = Some 1200000001000\<rparr> (Inr [])
     [\<lparr>start = 1000, subscription = Inr
         [\<lparr>k = \<lparr>close = Empty\<rparr>, parent_done = False, now = 2000,
           events = Head \<lparr>Type = Added,
                          Object = PodObject \<lparr>Name = ''p3'', DeletionTimestamp = None\<rparr>\<rparr>,
           pick = 0\<rparr>,
          \<lparr>k = \<lparr>close = Empty\<rparr>, parent_done = False, now = 900000001000, events = Empty,
           pick = 0\<rparr>]\<rparr>,
      \<lparr>start = 900000001500, subscription = Inr []\<rparr>]
   = (Blocked,
      \<lparr>collectorMap = [''p3'' \<mapsto> Collector ''p3''], collectorsDiscovered = 1,
       calls = [List_Pods, Fn Map.empty, Watch_Pods 900000001000,
                Fn [''p3'' \<mapsto> Collector ''p3''], Watch_Pods 1200000001000]\<rparr>)"
proof -
  let ?c = "\<lparr>Deadline = Some 1200000001000\<rparr>"
  let ?m = "[''p3'' \<mapsto> Collector ''p3'']"
  let ?wa = "\<lparr>k = \<lparr>close = Empty\<rparr>, parent_done = False, now = 2000,
           events = Head \<lparr>Type = Added,
                          Object = PodObject \<lparr>Name = ''p3'', DeletionTimestamp = None\<rparr>\<rparr>,
           pick = 0\<rparr>"
  let ?wx = "\<lparr>k = \<lparr>close = Empty\<rparr>, parent_done = False, now = 900000001000, events = Empty,
           pick = 0\<rparr>"
  let ?e = "\<lparr>start = 1000, subscription = Inr [?wa, ?wx]\<rparr>"
  let ?e' = "\<lparr>start = 900000001500, subscription = Inr []\<rparr>"
  let ?s = "\<lparr>collectorMap = Map.empty, collectorsDiscovered = 0,
             calls = [List_Pods, Fn Map.empty]\<rparr>"
  let ?s2 = "\<lparr>collectorMap = ?m, collectorsDiscovered = 1,
              calls = [List_Pods, Fn Map.empty, Watch_Pods 900000001000, Fn ?m]\<rparr>"
  have at: "Watch ?c (Inr []) [] = (Pending, ?s)"
    by (simp add: Watch_def init_def Let_def)
  have sub: "subscription ?e = Inr ([?wa] @ ?wx # [])" by simp
  have pre: "runWatch (WithTimeout ?c (start ?e) watcherTimeout) [?wa]
               (?s\<lparr>calls := calls ?s @ [Watch_Pods (WithTimeout ?c (start ?e) watcherTimeout)]\<rparr>)
             = (None, ?s2)"
    by (simp add: durations waits Let_def NewCollector_def)
  have ex: "WithTimeout ?c (start ?e) watcherTimeout \<le> now ?wx"
    by (simp add: durations)
  have sel: "select (WithTimeout ?c (start ?e) watcherTimeout) ?wx = Some CaseCtxDone"
    by (simp add: durations waits)
  from session_deadline_fifteen_minutes [OF at sub pre ex sel]
  have "Watch ?c (Inr []) ([] @ [?e]) = (Pending, ?s2)"
    by blast
  then have "Watch ?c (Inr []) ([?e] @ [?e']) = watchLoop ?c [?e'] ?s2"
    using Watch_append [of ?c "Inr []" "[?e]" ?s2 "[?e']"] by simp
  also have "watchLoop ?c [?e'] ?s2 =
      (Blocked, ?s2\<lparr>calls := calls ?s2 @ [Watch_Pods 1200000001000]\<rparr>)"
    by (simp add: restartWatch_def durations Let_def)
  finally show ?thesis by simp
qed

text \<open>
  C8 as stated fails in three ways. First, the deadline reached and \<open>Close\<close> signalled as
  well: the runtime may take the close case, the processor returns the terminal reason
  and \<open>Watch\<close> returns without opening a new session. Second, the deadline passed with
  an event pending: the runtime may take the event case, and the processor handles the
  event and stays in the session beyond the 15 minutes. Third, a caller's context that
  expires 10 minutes after the session starts: the session context carries that
  deadline, not one 15 minutes away.
\<close>

theorem session_deadline_counterexample:
  "WithTimeout Background 0 watcherTimeout = 900000000000
   \<and> Watch Background (Inr [])
       [\<lparr>start = 0, subscription = Inr
          [\<lparr>k = \<lparr>close = Closed\<rparr>, parent_done = False, now = 900000000000, events = Empty,
            pick = 0\<rparr>]\<rparr>,
        \<lparr>start = 900000000100, subscription = Inr []\<rparr>]
     = (Returned None,
        \<lparr>collectorMap = Map.empty, collectorsDiscovered = 0,
         calls = [List_Pods, Fn Map.empty, Watch_Pods 900000000000]\<rparr>)
   \<and> runWatch (WithTimeout Background 0 watcherTimeout)
       [\<lparr>k = \<lparr>close = Empty\<rparr>, parent_done = False, now = 900000000500,
         events = Head \<lparr>Type = Added,
                        Object = PodObject \<lparr>Name = ''p1'', DeletionTimestamp = None\<rparr>\<rparr>,
         pick = 1\<rparr>]
       init
     = (None, \<lparr>collectorMap = [''p1'' \<mapsto> Collector ''p1''], collectorsDiscovered = 1,
               calls = [Fn [''p1'' \<mapsto> Collector ''p1'']]\<rparr>)
   \<and> WithTimeout \<lparr>Deadline = Some 600000000000\<rparr> 0 watcherTimeout = 600000000000
   \<and> Watch \<lparr>Deadline = Some 600000000000\<rparr> (Inr [])
       [\<lparr>start = 0, subscription = Inl ''refused''\<rparr>]
     = (Returned None,
        \<lparr>collectorMap = Map.empty, collectorsDiscovered = 0,
         calls = [List_Pods, Fn Map.empty, Watch_Pods 600000000000]\<rparr>)"
  by (simp add: Watch_def restartWatch_def init_def durations waits Let_def NewCollector_def)

text \<open>
  C9. A Modified event that the processor receives leaves the membership set as it was:
  no entry is inserted, overwritten or removed, and the loop goes on from the same map.
\<close>

theorem runWatch_Modified_keeps_set:
  assumes "select d w = Some CaseEvent" and "events w = Head e" and "Object e = PodObject pod"
    and "Type e = Modified"
  shows "runWatch d (w # ws) s =
           runWatch d ws
             (s\<lparr>collectorsDiscovered := card (dom (collectorMap s)),
                calls := calls s @ [Fn (collectorMap s)]\<rparr>)
       \<and> collectorMap (snd (runWatch d [w] s)) = collectorMap s"
  using runWatch_event [OF assms(1-3), of "[]" s] runWatch_event [OF assms(1-3), of ws s] assms(4)
  by simp

text \<open>A Modified event for an unknown pod \<open>p3\<close> while \<open>p1\<close> is tracked: the set stays \<open>{p1}\<close>.\<close>

theorem runWatch_Modified_keeps_set_witness:
  "runWatch 900000000000
     [\<lparr>k = \<lparr>close = Empty\<rparr>, parent_done = False, now = 10,
       events = Head \<lparr>Type = Modified,
                      Object = PodObject \<lparr>Name = ''p3'', DeletionTimestamp = None\<rparr>\<rparr>,
       pick = 0\<rparr>]
     \<lparr>collectorMap = [''p1'' \<mapsto> Collector ''p1''], collectorsDiscovered = 1, calls = []\<rparr>
   = (None, \<lparr>collectorMap = [''p1'' \<mapsto> Collector ''p1''], collectorsDiscovered = 1,
             calls = [Fn [''p1'' \<mapsto> Collector ''p1'']]\<rparr>)"
proof -
  let ?p = "\<lparr>Name = ''p3'', DeletionTimestamp = None\<rparr>"
  let ?e = "\<lparr>Type = Modified, Object = PodObject ?p\<rparr>"
  let ?w = "\<lparr>k = \<lparr>close = Empty\<rparr>, parent_done = False, now = 10, events = Head ?e,
             pick = 0\<rparr>"
  let ?s = "\<lparr>collectorMap = [''p1'' \<mapsto> Collector ''p1''], collectorsDiscovered = 1,
             calls = []\<rparr>"
  have h1: "select 900000000000 ?w = Some CaseEvent"
    by (simp add: waits)
  have h2: "events ?w = Head ?e" by simp
  have h3: "Object ?e = PodObject ?p" by simp
  have h4: "Type ?e = Modified" by simp
  from runWatch_Modified_keeps_set [OF h1 h2 h3 h4, of "[]" ?s]
  show ?thesis by simp
qed

text \<open>
  C10. For every event that the processor receives and that carries a pod, whatever its
  type, \<open>fn\<close> is called with the map as it stands after the event has been handled. For
  a type other than Added and Deleted (Modified, Bookmark, Error) the map is the one from
  before the event, and \<open>fn\<close> is called with it all the same.
\<close>

theorem runWatch_calls_fn_for_every_pod_event:
  assumes "select d w = Some CaseEvent" and "events w = Head e" and "Object e = PodObject pod"
  shows "(\<exists>later. calls (snd (runWatch d (w # ws) s)) =
            calls s @
            Fn (case Type e of
                  Added \<Rightarrow> (collectorMap s)(Name pod \<mapsto> NewCollector (Name pod))
                | Deleted \<Rightarrow> (collectorMap s)(Name pod := None)
                | _ \<Rightarrow> collectorMap s) # later)
       \<and> (Type e \<noteq> Added \<and> Type e \<noteq> Deleted \<longrightarrow>
            runWatch d (w # ws) s =
              runWatch d ws
                (s\<lparr>collectorsDiscovered := card (dom (collectorMap s)),
                   calls := calls s @ [Fn (collectorMap s)]\<rparr>)
            \<and> (\<exists>later. calls (snd (runWatch d (w # ws) s)) =
                  calls s @ Fn (collectorMap s) # later))"
proof -
  let ?m = "case Type e of
              Added \<Rightarrow> (collectorMap s)(Name pod \<mapsto> NewCollector (Name pod))
            | Deleted \<Rightarrow> (collectorMap s)(Name pod := None)
            | _ \<Rightarrow> collectorMap s"
  let ?s1 = "s\<lparr>collectorsDiscovered := card (dom (collectorMap s)),
               collectorMap := ?m, calls := calls s @ [Fn ?m]\<rparr>"
  have step: "runWatch d (w # ws) s = runWatch d ws ?s1"
    using runWatch_event [OF assms, of ws s] by simp
  obtain xs where "calls (snd (runWatch d ws ?s1)) = calls ?s1 @ xs"
    using runWatch_calls [of d ws ?s1] by blast
  with step have a: "\<exists>later. calls (snd (runWatch d (w # ws) s)) = calls s @ Fn ?m # later"
    by simp
  have m: "?m = collectorMap s" if "Type e \<noteq> Added" "Type e \<noteq> Deleted"
    using that by (cases "Type e") simp_all
  have b: "runWatch d (w # ws) s =
              runWatch d ws
                (s\<lparr>collectorsDiscovered := card (dom (collectorMap s)),
                   calls := calls s @ [Fn (collectorMap s)]\<rparr>)"
    if "Type e \<noteq> Added" "Type e \<noteq> Deleted"
    using step m [OF that] by simp
  from a b m show ?thesis by auto
qed

text \<open>
  A Bookmark event and a Modified event, each carrying a pod: two calls of \<open>fn\<close>, both
  with the unchanged set \<open>{p1}\<close>.
\<close>

theorem runWatch_calls_fn_for_every_pod_event_witness:
  "runWatch 900000000000
     [\<lparr>k = \<lparr>close = Empty\<rparr>, parent_done = False, now = 10,
       events = Head \<lparr>Type = Bookmark,
                      Object = PodObject \<lparr>Name = ''p3'', DeletionTimestamp = None\<rparr>\<rparr>,
       pick = 0\<rparr>,
      \<lparr>k = \<lparr>close = Empty\<rparr>, parent_done = False, now = 11,
       events = Head \<lparr>Type = Modified,
                      Object = PodObject \<lparr>Name = ''p1'', DeletionTimestamp = None\<rparr>\<rparr>,
       pick = 0\<rparr>]
     \<lparr>collectorMap = [''p1'' \<mapsto> Collector ''p1''], collectorsDiscovered = 1, calls = []\<rparr>
   = (None, \<lparr>collectorMap = [''p1'' \<mapsto> Collector ''p1''], collectorsDiscovered = 1,
             calls = [Fn [''p1'' \<mapsto> Collector ''p1''], Fn [''p1'' \<mapsto> Collector ''p1'']]\<rparr>)"
proof -
  let ?p = "\<lparr>Name = ''p3'', DeletionTimestamp = None\<rparr>"
  let ?e = "\<lparr>Type = Bookmark, Object = PodObject ?p\<rparr>"
  let ?w = "\<lparr>k = \<lparr>close = Empty\<rparr>, parent_done = False, now = 10, events = Head ?e,
             pick = 0\<rparr>"
  let ?p' = "\<lparr>Name = ''p1'', DeletionTimestamp = None\<rparr>"
  let ?e' = "\<lparr>Type = Modified, Object = PodObject ?p'\<rparr>"
  let ?w' = "\<lparr>k = \<lparr>close = Empty\<rparr>, parent_done = False, now = 11, events = Head ?e',
              pick = 0\<rparr>"
  let ?s = "\<lparr>collectorMap = [''p1'' \<mapsto> Collector ''p1''], collectorsDiscovered = 1,
             calls = []\<rparr>"
  let ?s' = "\<lparr>collectorMap = [''p1'' \<mapsto> Collector ''p1''], collectorsDiscovered = 1,
              calls = [Fn [''p1'' \<mapsto> Collector ''p1'']]\<rparr>"
  have h1: "select 900000000000 ?w = Some CaseEvent"
    by (simp add: waits)
  have h2: "events ?w = Head ?e" by simp
  have h3: "Object ?e = PodObject ?p" by simp
  have h1': "select 900000000000 ?w' = Some CaseEvent"
    by (simp add: waits)
  have h2': "events ?w' = Head ?e'" by simp
  have h3': "Object ?e' = PodObject ?p'" by simp
  from runWatch_calls_fn_for_every_pod_event [OF h1 h2 h3, of "[?w']" ?s]
  have "runWatch 900000000000 [?w, ?w'] ?s = runWatch 900000000000 [?w'] ?s'"
    by simp
  also from runWatch_calls_fn_for_every_pod_event [OF h1' h2' h3', of "[]" ?s']
  have "runWatch 900000000000 [?w'] ?s' =
        (None, ?s'\<lparr>calls := calls ?s' @ [Fn [''p1'' \<mapsto> Collector ''p1'']]\<rparr>)"
    by simp
  finally show ?thesis by simp
qed

end
